theory Spec2Isabelle
  imports Main "HOL-Library.Sublist" "HOL-Library.Multiset"
begin

section \<open>Data model of the book exchange (app.py)\<close>

text \<open>
  The three SQLAlchemy models.  Primary keys and foreign keys are Python integers,
  timestamps are points of the UTC clock (an integer count of microseconds), nullable
  columns are options.  The primary key column \<open>id\<close> of each model is prefixed with the
  model's initial, as \<open>id\<close> is the identity function of HOL.
\<close>

record user =
  u_id :: int
  username :: string
  email :: string
  password_hash :: string

record listing =
  l_id :: int
  title :: string
  author :: string
  genre :: "string option"
  description :: "string option"
  condition :: "string option"
  created_at :: int
  owner_id :: int

record message =
  m_id :: int
  sender_id :: int
  receiver_id :: int
  listing_id :: int
  content :: string
  timestamp :: int

text \<open>
  The persistent store (one list per table, in storage order) together with the
  Flask-Login session of the client: the id of the logged-in user, if any.
\<close>

record app_state =
  users :: "user list"
  listings :: "listing list"
  messages :: "message list"
  session :: "int option"

datatype http_method = GET | POST

text \<open>A flashed notice: the text and its category.\<close>

type_synonym flash = "string \<times> string"

text \<open>
  What a view returns: a redirect to a location, or a rendered template with the
  context the view passes to it.
\<close>

datatype response =
    Redirect string
  | Render_register
  | Render_login
  | Render_create_listing
  | Render_listings "listing list" "string list" "string list" string string string
  | Render_listing_detail listing "message list"
  | Render_messages "(int \<times> int) \<rightharpoonup> message"

text \<open>
  The ways a view ends without a response of its own: \<open>abort(404)\<close> of
  \<open>get_or_404\<close>; the refusal of \<open>@login_required\<close>; the \<open>AttributeError\<close> of
  reading \<open>owner.id\<close> when \<open>listing.owner\<close> is \<open>None\<close>, and of
  \<open>check_password_hash\<close> encoding a password that is \<open>None\<close>; the \<open>ValueError\<close> of
  \<open>redirect\<close> on a location that holds a newline character.
\<close>

datatype error = NotFound | Unauthorized | AttributeError | ValueError

type_synonym outcome = "error + (response \<times> flash list \<times> app_state)"

section \<open>Helpers: truthiness, row lookup, fresh keys, URLs\<close>

text \<open>Python's truth value of \<open>request.form.get(...)\<close>: \<open>None\<close> and \<open>''\<close> are false.\<close>

fun truthy :: "string option \<Rightarrow> bool" where
  "truthy None = False"
| "truthy (Some s) = (s \<noteq> [])"

definition get_user :: "app_state \<Rightarrow> int \<Rightarrow> user option" where
  "get_user st uid = find (\<lambda>u. u_id u = uid) (users st)"

definition get_listing :: "app_state \<Rightarrow> int \<Rightarrow> listing option" where
  "get_listing st lid = find (\<lambda>l. l_id l = lid) (listings st)"

text \<open>
  \<open>load_user\<close>: Flask-Login resolves the id stored in the session to a row of the
  user table; a session without a row is anonymous.
\<close>

definition current_user :: "app_state \<Rightarrow> user option" where
  "current_user st = (case session st of None \<Rightarrow> None | Some uid \<Rightarrow> get_user st uid)"

text \<open>SQLite gives a new row the key one above the largest key in use.\<close>

definition next_id :: "int list \<Rightarrow> int" where
  "next_id ks = fold max ks 0 + 1"

fun digits :: "nat \<Rightarrow> string" where
  "digits n = (if n < 10 then [char_of (48 + n)]
               else digits (n div 10) @ [char_of (48 + n mod 10)])"

definition str_int :: "int \<Rightarrow> string" where
  "str_int i = (if i < 0 then CHR ''-'' # digits (nat (- i)) else digits (nat i))"

definition url_for_index :: string where "url_for_index = ''/''"
definition url_for_register :: string where "url_for_register = ''/register''"
definition url_for_login :: string where "url_for_login = ''/login''"
definition url_for_listings :: string where "url_for_listings = ''/listings''"
definition url_for_create_listing :: string where "url_for_create_listing = ''/create_listing''"

definition url_for_listing_detail :: "int \<Rightarrow> string" where
  "url_for_listing_detail lid = ''/listing/'' @ str_int lid"

text \<open>
  \<open>redirect(location)\<close> puts the location into the \<open>Location\<close> header, and a header
  value with a carriage return or a line feed is refused with \<open>ValueError\<close>.  The
  locations that \<open>url_for\<close> builds hold neither, so the views below write \<open>Redirect\<close>
  for them; \<open>login\<close> redirects to a location taken from the request and goes through
  \<open>redirect\<close>.
\<close>

definition redirect :: "string \<Rightarrow> error + response" where
  "redirect location =
     (if CHR 0x0D \<in> set location \<or> CHR 0x0A \<in> set location then Inl ValueError
      else Inr (Redirect location))"

section \<open>Messaging: the listing detail view\<close>

text \<open>
  The conversation query of \<open>listing_detail\<close>: the messages of the listing exchanged
  between the current user and the owner, \<open>ORDER BY timestamp ASC\<close>.
\<close>

definition in_conversation :: "int \<Rightarrow> int \<Rightarrow> int \<Rightarrow> message \<Rightarrow> bool" where
  "in_conversation lid a b m \<longleftrightarrow>
     listing_id m = lid \<and>
     ((sender_id m = a \<and> receiver_id m = b) \<or> (sender_id m = b \<and> receiver_id m = a))"

definition conversation :: "app_state \<Rightarrow> int \<Rightarrow> int \<Rightarrow> int \<Rightarrow> message list" where
  "conversation st lid a b = sort_key timestamp (filter (in_conversation lid a b) (messages st))"

definition new_message :: "app_state \<Rightarrow> int \<Rightarrow> int \<Rightarrow> int \<Rightarrow> string \<Rightarrow> int \<Rightarrow> message" where
  "new_message st sid rid lid c now =
     \<lparr>m_id = next_id (map m_id (messages st)), sender_id = sid, receiver_id = rid,
      listing_id = lid, content = c, timestamp = now\<rparr>"

text \<open>
  \<open>listing_detail st meth form_content now lid\<close>: the view for
  \<open>/listing/<int:listing_id>\<close>.  \<open>form_content\<close> is \<open>request.form.get('content')\<close>
  and \<open>now\<close> is the clock read by the column default of \<open>Message.timestamp\<close>.
\<close>

definition listing_detail ::
  "app_state \<Rightarrow> http_method \<Rightarrow> string option \<Rightarrow> int \<Rightarrow> int \<Rightarrow> outcome" where
  "listing_detail st meth form_content now lid =
     (case get_listing st lid of
        None \<Rightarrow> Inl NotFound
      | Some l \<Rightarrow>
          (case current_user st of
             None \<Rightarrow> Inr (Render_listing_detail l [], [], st)
           | Some cu \<Rightarrow>
               (case get_user st (owner_id l) of
                  None \<Rightarrow> Inl AttributeError
                | Some owner \<Rightarrow>
                    (let msgs = conversation st (l_id l) (u_id cu) (u_id owner) in
                     if meth = POST \<and> truthy form_content then
                       (if u_id cu \<noteq> u_id owner then
                          Inr (Redirect (url_for_listing_detail (l_id l)),
                               [(''Message sent.'', ''success'')],
                               st\<lparr>messages := messages st @
                                  [new_message st (u_id cu) (u_id owner) (l_id l)
                                     (the form_content) now]\<rparr>)
                        else
                          Inr (Render_listing_detail l msgs,
                               [(''You cannot message yourself about your own listing.'',
                                 ''warning'')],
                               st))
                     else Inr (Render_listing_detail l msgs, [], st)))))"

section \<open>Messaging: the overview of conversations\<close>

text \<open>
  \<open>messages_overview\<close> scans the messages that involve the current user, in the order
  the store returns them, and keeps one message per key \<open>(listing_id, partner_id)\<close>
  in a dictionary.
\<close>

definition involves :: "int \<Rightarrow> message \<Rightarrow> bool" where
  "involves uid m \<longleftrightarrow> sender_id m = uid \<or> receiver_id m = uid"

definition partner_id :: "int \<Rightarrow> message \<Rightarrow> int" where
  "partner_id uid m = (if sender_id m = uid then receiver_id m else sender_id m)"

definition conv_key :: "int \<Rightarrow> message \<Rightarrow> int \<times> int" where
  "conv_key uid m = (listing_id m, partner_id uid m)"

text \<open>One pass of the loop body: \<open>if key not in conversations or msg.timestamp >
  conversations[key].timestamp: conversations[key] = msg\<close>.\<close>

definition conv_step ::
  "int \<Rightarrow> ((int \<times> int) \<rightharpoonup> message) \<Rightarrow> message \<Rightarrow> ((int \<times> int) \<rightharpoonup> message)" where
  "conv_step uid convs msg =
     (case convs (conv_key uid msg) of
        None \<Rightarrow> convs(conv_key uid msg \<mapsto> msg)
      | Some kept \<Rightarrow>
          if timestamp msg > timestamp kept then convs(conv_key uid msg \<mapsto> msg) else convs)"

definition conversations :: "app_state \<Rightarrow> int \<Rightarrow> ((int \<times> int) \<rightharpoonup> message)" where
  "conversations st uid = foldl (conv_step uid) Map.empty (filter (involves uid) (messages st))"

definition messages_overview :: "app_state \<Rightarrow> outcome" where
  "messages_overview st =
     (case current_user st of
        None \<Rightarrow> Inl Unauthorized
      | Some cu \<Rightarrow> Inr (Render_messages (conversations st (u_id cu)), [], st))"

section \<open>Listing catalog\<close>

text \<open>
  \<open>ilike\<close> on SQLite is \<open>lower(column) LIKE lower(pattern)\<close>: \<open>%\<close> stands for any
  run of characters, \<open>_\<close> for any one character, every other character for itself up
  to the case of the ASCII letters; there is no escape character.
\<close>

definition lower_char :: "char \<Rightarrow> char" where
  "lower_char c =
     (let n = (of_char c :: nat) in if 65 \<le> n \<and> n \<le> 90 then char_of (n + 32) else c)"

fun like :: "string \<Rightarrow> string \<Rightarrow> bool" where
  "like [] [] = True"
| "like [] (c # cs) = False"
| "like (p # ps) [] = (p = CHR ''%'' \<and> like ps [])"
| "like (p # ps) (c # cs) =
     (if p = CHR ''%'' then like ps (c # cs) \<or> like (p # ps) cs
      else if p = CHR ''_'' then like ps cs
      else lower_char p = lower_char c \<and> like ps cs)"

definition ilike :: "string \<Rightarrow> string \<Rightarrow> bool" where
  "ilike s pat = like (map lower_char pat) (map lower_char s)"

text \<open>A comparison with a \<open>NULL\<close> column is not true, so the row is not selected.\<close>

fun ilike_null :: "string option \<Rightarrow> string \<Rightarrow> bool" where
  "ilike_null None pat = False"
| "ilike_null (Some s) pat = ilike s pat"

definition matches_search :: "string \<Rightarrow> listing \<Rightarrow> bool" where
  "matches_search search_query l =
     (let like_pattern = ''%'' @ search_query @ ''%'' in
      ilike (title l) like_pattern \<or> ilike (author l) like_pattern \<or>
      ilike_null (genre l) like_pattern)"

definition selected :: "string \<Rightarrow> string \<Rightarrow> string \<Rightarrow> listing \<Rightarrow> bool" where
  "selected search_query genre_filter condition_filter l \<longleftrightarrow>
     (search_query = [] \<or> matches_search search_query l) \<and>
     (genre_filter = [] \<or> genre l = Some genre_filter) \<and>
     (condition_filter = [] \<or> condition l = Some condition_filter)"

text \<open>\<open>ORDER BY created_at DESC\<close>.\<close>

definition newest_first :: "listing list \<Rightarrow> listing list" where
  "newest_first ls = sort_key (\<lambda>l. - created_at l) ls"

text \<open>The non-empty distinct values of a column, for the filter drop-downs.\<close>

definition distinct_values :: "(listing \<Rightarrow> string option) \<Rightarrow> listing list \<Rightarrow> string list" where
  "distinct_values col ls =
     filter (\<lambda>s. s \<noteq> []) (remdups (concat (map (\<lambda>l. case col l of None \<Rightarrow> [] | Some s \<Rightarrow> [s]) ls)))"

fun arg_or_empty :: "string option \<Rightarrow> string" where
  "arg_or_empty None = []"
| "arg_or_empty (Some s) = s"

definition listings_query :: "app_state \<Rightarrow> string \<Rightarrow> string \<Rightarrow> string \<Rightarrow> listing list" where
  "listings_query st search_query genre_filter condition_filter =
     newest_first (filter (selected search_query genre_filter condition_filter) (listings st))"

text \<open>The view for \<open>/listings\<close>; the arguments are the query parameters \<open>q\<close>,
  \<open>genre\<close> and \<open>condition\<close>, each defaulting to the empty string.\<close>

definition listings_view ::
  "app_state \<Rightarrow> string option \<Rightarrow> string option \<Rightarrow> string option \<Rightarrow> outcome" where
  "listings_view st q g c =
     (let search_query = arg_or_empty q; genre_filter = arg_or_empty g;
          condition_filter = arg_or_empty c in
      Inr (Render_listings (listings_query st search_query genre_filter condition_filter)
             (distinct_values genre (listings st)) (distinct_values condition (listings st))
             search_query genre_filter condition_filter, [], st))"

definition create_listing ::
  "app_state \<Rightarrow> http_method \<Rightarrow> string option \<Rightarrow> string option \<Rightarrow> string option \<Rightarrow>
     string option \<Rightarrow> string option \<Rightarrow> int \<Rightarrow> outcome" where
  "create_listing st meth f_title f_author f_genre f_description f_condition now =
     (case current_user st of
        None \<Rightarrow> Inl Unauthorized
      | Some cu \<Rightarrow>
          if meth = POST then
            (if \<not> truthy f_title \<or> \<not> truthy f_author then
               Inr (Redirect url_for_create_listing,
                    [(''Title and author are required.'', ''danger'')], st)
             else
               Inr (Redirect url_for_listings,
                    [(''Listing created successfully.'', ''success'')],
                    st\<lparr>listings := listings st @
                       [\<lparr>l_id = next_id (map l_id (listings st)), title = the f_title,
                         author = the f_author, genre = f_genre, description = f_description,
                         condition = f_condition, created_at = now, owner_id = u_id cu\<rparr>]\<rparr>))
          else Inr (Render_create_listing, [], st))"

section \<open>Identity and session\<close>

text \<open>
  \<open>generate_password_hash\<close> and \<open>check_password_hash\<close> of werkzeug are outside the
  repository; the views take them as parameters \<open>gen\<close> and \<open>chk\<close> (\<open>chk digest
  password\<close>) on strings.  \<open>check_password_hash\<close> encodes the password before it
  compares, so on the \<open>None\<close> of a missing form field it raises \<open>AttributeError\<close>.
  \<open>filter_by(username=...).first()\<close> with a missing form field compares with \<open>NULL\<close>
  and finds no row.
\<close>

fun user_by_username :: "app_state \<Rightarrow> string option \<Rightarrow> user option" where
  "user_by_username st None = None"
| "user_by_username st (Some n) = find (\<lambda>u. username u = n) (users st)"

fun user_by_email :: "app_state \<Rightarrow> string option \<Rightarrow> user option" where
  "user_by_email st None = None"
| "user_by_email st (Some e) = find (\<lambda>u. email u = e) (users st)"

definition register ::
  "(string \<Rightarrow> string) \<Rightarrow> app_state \<Rightarrow> http_method \<Rightarrow> string option \<Rightarrow> string option \<Rightarrow>
     string option \<Rightarrow> string option \<Rightarrow> outcome" where
  "register gen st meth f_username f_email f_password f_confirm =
     (if meth = POST then
        (if \<not> truthy f_username \<or> \<not> truthy f_email \<or> \<not> truthy f_password then
           Inr (Redirect url_for_register, [(''All fields are required.'', ''danger'')], st)
         else if f_password \<noteq> f_confirm then
           Inr (Redirect url_for_register, [(''Passwords do not match.'', ''danger'')], st)
         else if user_by_username st f_username \<noteq> None then
           Inr (Redirect url_for_register, [(''Username already taken.'', ''danger'')], st)
         else if user_by_email st f_email \<noteq> None then
           Inr (Redirect url_for_register, [(''Email already registered.'', ''danger'')], st)
         else
           (let new_user = \<lparr>u_id = next_id (map u_id (users st)), username = the f_username,
                             email = the f_email, password_hash = gen (the f_password)\<rparr> in
            Inr (Redirect url_for_index,
                 [(''Registration successful! Welcome to the book exchange.'', ''success'')],
                 st\<lparr>users := users st @ [new_user], session := Some (u_id new_user)\<rparr>)))
      else Inr (Render_register, [], st))"

text \<open>
  \<open>login chk st meth f_username f_password next_arg\<close>; \<open>next_arg\<close> is
  \<open>request.args.get('next')\<close>.  In \<open>user is None or not user.check_password(password)\<close>
  the password is checked only when a user is found; the check raises when the password
  field is missing.  On success the view redirects to \<open>next_page or url_for('index')\<close>,
  and the redirect raises when that location holds a newline character.
\<close>

definition login ::
  "(string \<Rightarrow> string \<Rightarrow> bool) \<Rightarrow> app_state \<Rightarrow> http_method \<Rightarrow> string option \<Rightarrow>
     string option \<Rightarrow> string option \<Rightarrow> outcome" where
  "login chk st meth f_username f_password next_arg =
     (if meth = POST then
        (case user_by_username st f_username of
           None \<Rightarrow>
             Inr (Redirect url_for_login, [(''Invalid username or password.'', ''danger'')], st)
         | Some u \<Rightarrow>
             (case f_password of
                None \<Rightarrow> Inl AttributeError
              | Some password \<Rightarrow>
                  if \<not> chk (password_hash u) password then
                    Inr (Redirect url_for_login,
                         [(''Invalid username or password.'', ''danger'')], st)
                  else
                    (case redirect (if truthy next_arg then the next_arg else url_for_index) of
                       Inl e \<Rightarrow> Inl e
                     | Inr resp \<Rightarrow>
                         Inr (resp, [(''Logged in successfully.'', ''success'')],
                              st\<lparr>session := Some (u_id u)\<rparr>))))
      else Inr (Render_login, [], st))"

definition logout :: "app_state \<Rightarrow> outcome" where
  "logout st =
     (case current_user st of
        None \<Rightarrow> Inl Unauthorized
      | Some cu \<Rightarrow>
          Inr (Redirect url_for_index, [(''You have been logged out.'', ''info'')],
               st\<lparr>session := None\<rparr>))"

section \<open>Request sequences\<close>

text \<open>
  The requests that write to the store or the session, with their form fields and the
  time of the request.  A request that ends in an error commits nothing to the store.
\<close>

datatype request =
    Register "string option" "string option" "string option" "string option"
  | Login "string option" "string option" "string option"
  | Logout
  | Create_listing "string option" "string option" "string option" "string option"
      "string option" int
  | Send "string option" int int

fun handle ::
  "(string \<Rightarrow> string) \<Rightarrow> (string \<Rightarrow> string \<Rightarrow> bool) \<Rightarrow> app_state \<Rightarrow> request \<Rightarrow> outcome"
  where
  "handle gen chk st (Register n e p c) = register gen st POST n e p c"
| "handle gen chk st (Login n p nx) = login chk st POST n p nx"
| "handle gen chk st Logout = logout st"
| "handle gen chk st (Create_listing t a g d c now) = create_listing st POST t a g d c now"
| "handle gen chk st (Send c now lid) = listing_detail st POST c now lid"

definition step ::
  "(string \<Rightarrow> string) \<Rightarrow> (string \<Rightarrow> string \<Rightarrow> bool) \<Rightarrow> app_state \<Rightarrow> request \<Rightarrow> app_state"
  where
  "step gen chk st r = (case handle gen chk st r of Inl e \<Rightarrow> st | Inr (resp, fl, st') \<Rightarrow> st')"

definition run ::
  "(string \<Rightarrow> string) \<Rightarrow> (string \<Rightarrow> string \<Rightarrow> bool) \<Rightarrow> app_state \<Rightarrow> request list \<Rightarrow> app_state"
  where
  "run gen chk st rs = foldl (step gen chk) st rs"

text \<open>The store after \<open>db.create_all()\<close>, with no session.\<close>

definition empty_state :: app_state where
  "empty_state = \<lparr>users = [], listings = [], messages = [], session = None\<rparr>"

section \<open>Observations on an outcome, and a sample store\<close>

text \<open>The notices flashed by a request and the state it leaves; an error flashes nothing
  and commits nothing.\<close>

fun flashed :: "outcome \<Rightarrow> flash list" where
  "flashed (Inl e) = []"
| "flashed (Inr (resp, fl, st')) = fl"

fun state_after :: "app_state \<Rightarrow> outcome \<Rightarrow> app_state" where
  "state_after st (Inl e) = st"
| "state_after st (Inr (resp, fl, st')) = st'"

text \<open>Two users, a listing of the second, and one message from the first about it; the
  first user is logged in.\<close>

definition demo_state :: app_state where
  "demo_state =
     \<lparr>users = [\<lparr>u_id = 1, username = ''ann'', email = ''ann@x.org'', password_hash = ''h1''\<rparr>,
               \<lparr>u_id = 2, username = ''bob'', email = ''bob@x.org'', password_hash = ''h2''\<rparr>],
      listings = [\<lparr>l_id = 1, title = ''Dune'', author = ''Herbert'', genre = None,
                   description = None, condition = Some ''Good'', created_at = 5, owner_id = 2\<rparr>],
      messages = [\<lparr>m_id = 1, sender_id = 1, receiver_id = 2, listing_id = 1,
                   content = ''Is this available?'', timestamp = 7\<rparr>],
      session = Some 1\<rparr>"

text \<open>
  Stand-ins for the password primitives when a run is evaluated: the digest of a password
  is the password, and a password passes the check when it is the digest.
\<close>

definition demo_gen :: "string \<Rightarrow> string" where
  "demo_gen p = p"

definition demo_chk :: "string \<Rightarrow> string \<Rightarrow> bool" where
  "demo_chk h p \<longleftrightarrow> p = h"

text \<open>
  A run from the empty store: bob registers and lists a book, logs out, ann registers and
  posts the content \<open>c\<close> on the listing.
\<close>

definition sample_requests :: "string \<Rightarrow> request list" where
  "sample_requests c =
     [Register (Some ''bob'') (Some ''bob@x.org'') (Some ''pw1'') (Some ''pw1''),
      Create_listing (Some ''Dune'') (Some ''Herbert'') None None None 5,
      Logout,
      Register (Some ''ann'') (Some ''ann@x.org'') (Some ''pw2'') (Some ''pw2''),
      Send (Some c) 9 1]"

text \<open>
  The specification speaks of content that is ``non-empty after trimming''.  The source has
  no trimming; \<open>spec_trim\<close> follows the specification's words (Python's \<open>str.strip\<close> on
  the ASCII whitespace characters) and is used only to state that reading.
\<close>

definition is_space :: "char \<Rightarrow> bool" where
  "is_space c = (let n = (of_char c :: nat) in n = 32 \<or> (9 \<le> n \<and> n \<le> 13) \<or> (28 \<le> n \<and> n \<le> 31))"

definition spec_trim :: "string \<Rightarrow> string" where
  "spec_trim s = rev (dropWhile is_space (rev (dropWhile is_space s)))"

text \<open>
  \<open>first_latest uid xs k m\<close>: in the scan \<open>xs\<close>, \<open>m\<close> is a message of key \<open>k\<close> whose
  timestamp is strictly above that of every earlier message of the key and at least that of
  every later one: the first of the messages of the key with the greatest timestamp.
\<close>

definition first_latest :: "int \<Rightarrow> message list \<Rightarrow> int \<times> int \<Rightarrow> message \<Rightarrow> bool" where
  "first_latest uid xs k m \<longleftrightarrow>
     (\<exists>pre suf. xs = pre @ m # suf \<and> conv_key uid m = k \<and>
        (\<forall>x \<in> set pre. conv_key uid x = k \<longrightarrow> timestamp x < timestamp m) \<and>
        (\<forall>x \<in> set suf. conv_key uid x = k \<longrightarrow> timestamp x \<le> timestamp m))"

text \<open>A store in which two messages of one conversation carry the same timestamp.\<close>

definition tie_state :: app_state where
  "tie_state =
     \<lparr>users = [\<lparr>u_id = 1, username = ''ann'', email = ''ann@x.org'', password_hash = ''h1''\<rparr>,
               \<lparr>u_id = 2, username = ''bob'', email = ''bob@x.org'', password_hash = ''h2''\<rparr>],
      listings = [\<lparr>l_id = 1, title = ''Dune'', author = ''Herbert'', genre = None,
                   description = None, condition = Some ''Good'', created_at = 5, owner_id = 2\<rparr>],
      messages = [\<lparr>m_id = 1, sender_id = 1, receiver_id = 2, listing_id = 1,
                   content = ''first'', timestamp = 7\<rparr>,
                  \<lparr>m_id = 2, sender_id = 1, receiver_id = 2, listing_id = 1,
                   content = ''second'', timestamp = 7\<rparr>],
      session = Some 1\<rparr>"

text \<open>
  The specification's reading of the search: \<open>q\<close> occurs in a field as a substring, up to
  the case of the ASCII letters; a listing is selected when \<open>q\<close> is not given or occurs in
  the title, the author or the genre, and the genre and the condition equal the given
  filters.  \<open>wildcard_free\<close> singles out the queries without the two characters that
  \<open>LIKE\<close> reads as wildcards.
\<close>

definition contains_ci :: "string \<Rightarrow> string \<Rightarrow> bool" where
  "contains_ci q s \<longleftrightarrow> sublist (map lower_char q) (map lower_char s)"

definition wildcard_free :: "string \<Rightarrow> bool" where
  "wildcard_free q \<longleftrightarrow> CHR ''%'' \<notin> set q \<and> CHR ''_'' \<notin> set q"

definition spec_selected :: "string \<Rightarrow> string \<Rightarrow> string \<Rightarrow> listing \<Rightarrow> bool" where
  "spec_selected q g c l \<longleftrightarrow>
     (q = [] \<or> contains_ci q (title l) \<or> contains_ci q (author l) \<or>
        (case genre l of None \<Rightarrow> False | Some x \<Rightarrow> contains_ci q x)) \<and>
     (g = [] \<or> genre l = Some g) \<and>
     (c = [] \<or> condition l = Some c)"

text \<open>Referential integrity of \<open>Listing.owner_id\<close>: every listing's owner is a stored user.\<close>

definition owners_exist :: "app_state \<Rightarrow> bool" where
  "owners_exist st \<longleftrightarrow> list_all (\<lambda>l. get_user st (owner_id l) \<noteq> None) (listings st)"

section \<open>Row lookup\<close>

lemma url_for_listing_detail_1: "url_for_listing_detail 1 = ''/listing/1''"
  by code_simp

lemma find_u_id: "find (\<lambda>u. u_id u = k) us = Some u \<Longrightarrow> u_id u = k"
  by (induction us) (auto split: if_splits)

lemma get_user_id: "get_user st k = Some u \<Longrightarrow> u_id u = k"
  unfolding get_user_def by (rule find_u_id)

lemma find_l_id: "find (\<lambda>x. l_id x = k) ls = Some l \<Longrightarrow> l_id l = k"
  by (induction ls) (auto split: if_splits)

lemma get_listing_id: "get_listing st k = Some l \<Longrightarrow> l_id l = k"
  unfolding get_listing_def by (rule find_l_id)

lemma current_user_row: "current_user st = Some s \<Longrightarrow> get_user st (u_id s) = Some s"
  unfolding current_user_def by (auto split: option.splits dest: get_user_id)

section \<open>Sending a message\<close>

text \<open>
  Claim C1.  An authenticated user \<open>s\<close> posts non-empty content on an existing listing
  \<open>l\<close>.  The warning that one cannot message oneself about one's own listing is flashed
  exactly when \<open>s\<close> is the owner of \<open>l\<close>, and in that case the listing page is rendered
  and the state, hence the message store, is the one before the request.
\<close>

theorem self_message_rejected:
  assumes "get_listing st lid = Some l" and "current_user st = Some s" and "truthy c"
  shows "((''You cannot message yourself about your own listing.'', ''warning'')
            \<in> set (flashed (listing_detail st POST c now lid)) \<longleftrightarrow> u_id s = owner_id l) \<and>
         (u_id s = owner_id l \<longrightarrow>
            listing_detail st POST c now lid =
              Inr (Render_listing_detail l (conversation st lid (u_id s) (owner_id l)),
                   [(''You cannot message yourself about your own listing.'', ''warning'')], st))"
proof (cases "get_user st (owner_id l)")
  case None
  with assms have "listing_detail st POST c now lid = Inl AttributeError"
    by (simp add: listing_detail_def)
  moreover from None assms(2) have "u_id s \<noteq> owner_id l"
    using current_user_row by fastforce
  ultimately show ?thesis by simp
next
  case (Some owner)
  then have o: "u_id owner = owner_id l" by (rule get_user_id)
  from assms(1) have "l_id l = lid" by (rule get_listing_id)
  with assms Some o show ?thesis
    by (simp add: listing_detail_def Let_def)
qed

theorem self_message_rejected_witness:
  "get_listing (demo_state\<lparr>session := Some 2\<rparr>) 1 \<noteq> None \<and>
   current_user (demo_state\<lparr>session := Some 2\<rparr>) \<noteq> None \<and> truthy (Some ''x'') \<and>
   flashed (listing_detail (demo_state\<lparr>session := Some 2\<rparr>) POST (Some ''x'') 9 1) =
     [(''You cannot message yourself about your own listing.'', ''warning'')] \<and>
   state_after (demo_state\<lparr>session := Some 2\<rparr>)
     (listing_detail (demo_state\<lparr>session := Some 2\<rparr>) POST (Some ''x'') 9 1) =
     demo_state\<lparr>session := Some 2\<rparr>"
  using self_message_rejected [of "demo_state\<lparr>session := Some 2\<rparr>" 1
      "\<lparr>l_id = 1, title = ''Dune'', author = ''Herbert'', genre = None,
        description = None, condition = Some ''Good'', created_at = 5, owner_id = 2\<rparr>"
      "\<lparr>u_id = 2, username = ''bob'', email = ''bob@x.org'', password_hash = ''h2''\<rparr>"
      "Some ''x''" 9]
  by (simp add: demo_state_def get_listing_def current_user_def get_user_def)

text \<open>
  Claim C2.  An authenticated user \<open>s\<close> who is not the owner posts non-empty content
  \<open>c\<close> on listing \<open>l\<close>: the store gains exactly one message, at the end, with sender
  \<open>s\<close>, receiver the owner of \<open>l\<close>, listing \<open>l\<close>, content \<open>c\<close> and the time of the
  request; the notice is ``Message sent.'' and the response redirects to the page of the
  same listing.
\<close>

theorem message_to_owner_persisted:
  assumes "get_listing st lid = Some l" and "current_user st = Some s"
    and "get_user st (owner_id l) = Some owner" and "u_id s \<noteq> owner_id l" and "c \<noteq> []"
  shows "listing_detail st POST (Some c) now lid =
           Inr (Redirect (url_for_listing_detail lid), [(''Message sent.'', ''success'')],
                st\<lparr>messages := messages st @
                   [\<lparr>m_id = next_id (map m_id (messages st)), sender_id = u_id s,
                     receiver_id = owner_id l, listing_id = lid, content = c,
                     timestamp = now\<rparr>]\<rparr>)"
proof -
  from assms(3) have "u_id owner = owner_id l" by (rule get_user_id)
  moreover from assms(1) have "l_id l = lid" by (rule get_listing_id)
  ultimately show ?thesis using assms
    by (simp add: listing_detail_def Let_def new_message_def)
qed

theorem message_to_owner_persisted_witness:
  "listing_detail demo_state POST (Some ''Still there?'') 9 1 =
     Inr (Redirect ''/listing/1'', [(''Message sent.'', ''success'')],
          demo_state\<lparr>messages := messages demo_state @
             [\<lparr>m_id = 2, sender_id = 1, receiver_id = 2, listing_id = 1,
               content = ''Still there?'', timestamp = 9\<rparr>]\<rparr>)"
  using message_to_owner_persisted [of demo_state 1
      "\<lparr>l_id = 1, title = ''Dune'', author = ''Herbert'', genre = None,
        description = None, condition = Some ''Good'', created_at = 5, owner_id = 2\<rparr>"
      "\<lparr>u_id = 1, username = ''ann'', email = ''ann@x.org'', password_hash = ''h1''\<rparr>"
      "\<lparr>u_id = 2, username = ''bob'', email = ''bob@x.org'', password_hash = ''h2''\<rparr>"
      "''Still there?''" 9]
  by (simp add: demo_state_def get_listing_def current_user_def get_user_def next_id_def
      url_for_listing_detail_1)

text \<open>
  Claim C9.  A POST whose content field is missing or empty is answered exactly as a GET
  of the same listing: nothing is flashed and the state is unchanged, so no message is
  persisted.
\<close>

theorem empty_content_is_noop:
  assumes "\<not> truthy c"
  shows "listing_detail st POST c now lid = listing_detail st GET c' now' lid \<and>
         flashed (listing_detail st POST c now lid) = [] \<and>
         state_after st (listing_detail st POST c now lid) = st"
  using assms by (simp add: listing_detail_def Let_def split: option.splits)

theorem empty_content_is_noop_witness:
  "\<not> truthy (Some []) \<and>
   listing_detail demo_state POST (Some []) 9 1 =
     Inr (Render_listing_detail
            \<lparr>l_id = 1, title = ''Dune'', author = ''Herbert'', genre = None,
              description = None, condition = Some ''Good'', created_at = 5, owner_id = 2\<rparr>
            [\<lparr>m_id = 1, sender_id = 1, receiver_id = 2, listing_id = 1,
              content = ''Is this available?'', timestamp = 7\<rparr>], [], demo_state) \<and>
   listing_detail demo_state POST (Some []) 9 1 = listing_detail demo_state GET None 0 1"
  using empty_content_is_noop [of "Some []" demo_state 9 1 None 0]
  by (simp add: demo_state_def listing_detail_def get_listing_def current_user_def get_user_def
      conversation_def in_conversation_def)


section \<open>The conversation about a listing\<close>

lemma in_conversation_pair:
  "in_conversation lid a b m \<longleftrightarrow> listing_id m = lid \<and> {sender_id m, receiver_id m} = {a, b}"
  by (auto simp: in_conversation_def doubleton_eq_iff)

text \<open>
  Claim C4.  The conversation of users \<open>a\<close> and \<open>b\<close> about listing \<open>lid\<close> holds
  exactly the stored messages (with multiplicity) whose listing is \<open>lid\<close> and whose set
  of sender and receiver is \<open>{a, b}\<close>, in non-decreasing order of timestamp; it is the
  empty list when there is no such message; and it is what a GET of the listing page
  renders for the current user and the owner.
\<close>

theorem conversation_exact_and_sorted:
  "mset (conversation st lid a b) =
     filter_mset (\<lambda>m. listing_id m = lid \<and> {sender_id m, receiver_id m} = {a, b})
       (mset (messages st)) \<and>
   sorted (map timestamp (conversation st lid a b)) \<and>
   ((\<forall>m \<in> set (messages st). \<not> (listing_id m = lid \<and> {sender_id m, receiver_id m} = {a, b}))
      \<longrightarrow> conversation st lid a b = []) \<and>
   (\<forall>l s owner c now.
      get_listing st lid = Some l \<and> current_user st = Some s \<and>
      get_user st (owner_id l) = Some owner \<longrightarrow>
      listing_detail st GET c now lid =
        Inr (Render_listing_detail l (conversation st lid (u_id s) (owner_id l)), [], st))"
proof -
  have eq: "in_conversation lid a b =
      (\<lambda>m. listing_id m = lid \<and> {sender_id m, receiver_id m} = {a, b})"
    by (rule ext) (rule in_conversation_pair)
  have 1: "mset (conversation st lid a b) =
     filter_mset (\<lambda>m. listing_id m = lid \<and> {sender_id m, receiver_id m} = {a, b})
       (mset (messages st))"
    by (simp add: conversation_def eq)
  have 2: "sorted (map timestamp (conversation st lid a b))"
    by (simp add: conversation_def)
  have 3: "(\<forall>m \<in> set (messages st). \<not> (listing_id m = lid \<and> {sender_id m, receiver_id m} = {a, b}))
      \<longrightarrow> conversation st lid a b = []"
    by (simp add: conversation_def eq filter_empty_conv)
  have 4: "\<forall>l s owner c now.
      get_listing st lid = Some l \<and> current_user st = Some s \<and>
      get_user st (owner_id l) = Some owner \<longrightarrow>
      listing_detail st GET c now lid =
        Inr (Render_listing_detail l (conversation st lid (u_id s) (owner_id l)), [], st)"
  proof (intro allI impI, elim conjE)
    fix l s owner c now
    assume g: "get_listing st lid = Some l" and c: "current_user st = Some s"
      and u: "get_user st (owner_id l) = Some owner"
    from u have "u_id owner = owner_id l" by (rule get_user_id)
    moreover from g have "l_id l = lid" by (rule get_listing_id)
    ultimately show "listing_detail st GET c now lid =
        Inr (Render_listing_detail l (conversation st lid (u_id s) (owner_id l)), [], st)"
      using g c u by (simp add: listing_detail_def Let_def)
  qed
  from 1 2 3 4 show ?thesis by blast
qed

theorem conversation_exact_and_sorted_witness:
  "conversation demo_state 1 1 2 =
     [\<lparr>m_id = 1, sender_id = 1, receiver_id = 2, listing_id = 1,
       content = ''Is this available?'', timestamp = 7\<rparr>] \<and>
   conversation demo_state 2 1 2 = [] \<and>
   listing_detail demo_state GET None 0 1 =
     Inr (Render_listing_detail
            \<lparr>l_id = 1, title = ''Dune'', author = ''Herbert'', genre = None,
              description = None, condition = Some ''Good'', created_at = 5, owner_id = 2\<rparr>
            (conversation demo_state 1 1 2), [], demo_state)"
proof -
  have a: "conversation demo_state 1 1 2 =
     [\<lparr>m_id = 1, sender_id = 1, receiver_id = 2, listing_id = 1,
       content = ''Is this available?'', timestamp = 7\<rparr>]"
    by (simp add: demo_state_def conversation_def in_conversation_def)
  have b: "\<forall>m \<in> set (messages demo_state).
      \<not> (listing_id m = 2 \<and> {sender_id m, receiver_id m} = {1, 2})"
    by (simp add: demo_state_def)
  have g: "get_listing demo_state 1 = Some \<lparr>l_id = 1, title = ''Dune'', author = ''Herbert'', genre = None,
              description = None, condition = Some ''Good'', created_at = 5, owner_id = 2\<rparr>"
    by (simp add: demo_state_def get_listing_def)
  have c: "current_user demo_state =
      Some \<lparr>u_id = 1, username = ''ann'', email = ''ann@x.org'', password_hash = ''h1''\<rparr>"
    by (simp add: demo_state_def current_user_def get_user_def)
  have u: "get_user demo_state 2 =
      Some \<lparr>u_id = 2, username = ''bob'', email = ''bob@x.org'', password_hash = ''h2''\<rparr>"
    by (simp add: demo_state_def get_user_def)
  from conversation_exact_and_sorted [of demo_state 2 1 2] b
  have e: "conversation demo_state 2 1 2 = []" by blast
  from conversation_exact_and_sorted [of demo_state 1 1 2] g c u
  have d: "listing_detail demo_state GET None 0 1 =
     Inr (Render_listing_detail
            \<lparr>l_id = 1, title = ''Dune'', author = ''Herbert'', genre = None,
              description = None, condition = Some ''Good'', created_at = 5, owner_id = 2\<rparr>
            (conversation demo_state 1 1 2), [], demo_state)"
    by fastforce
  from a e d show ?thesis by blast
qed

section \<open>Redirects to generated locations\<close>

text \<open>
  A location built by \<open>url_for\<close> holds no newline character, so \<open>redirect\<close> never
  raises on it and answers with \<open>Redirect\<close>, as the views other than \<open>login\<close> are
  written.
\<close>

lemma digit_char_no_newline:
  assumes "k < 10"
  shows "char_of (48 + k :: nat) \<noteq> CHR 0x0D \<and> char_of (48 + k :: nat) \<noteq> CHR 0x0A"
proof -
  from assms have v: "(of_char (char_of (48 + k :: nat)) :: nat) = 48 + k" by simp
  have c: "(of_char (CHR 0x0D) :: nat) = 13" "(of_char (CHR 0x0A) :: nat) = 10" by simp_all
  have "char_of (48 + k :: nat) \<noteq> CHR 0x0D"
  proof
    assume "char_of (48 + k :: nat) = CHR 0x0D"
    then have "(of_char (char_of (48 + k :: nat)) :: nat) = of_char (CHR 0x0D)" by simp
    with v c show False by simp
  qed
  moreover have "char_of (48 + k :: nat) \<noteq> CHR 0x0A"
  proof
    assume "char_of (48 + k :: nat) = CHR 0x0A"
    then have "(of_char (char_of (48 + k :: nat)) :: nat) = of_char (CHR 0x0A)" by simp
    with v c show False by simp
  qed
  ultimately show ?thesis by simp
qed

lemma digits_no_newline: "CHR 0x0D \<notin> set (digits n) \<and> CHR 0x0A \<notin> set (digits n)"
proof (induction n rule: digits.induct)
  case (1 n)
  show ?case
  proof (cases "n < 10")
    case True
    with digit_char_no_newline [of n] show ?thesis
      by (subst (1 2) digits.simps) auto
  next
    case False
    have "n mod 10 < 10" by simp
    from digit_char_no_newline [OF this] 1 False show ?thesis
      by (subst (1 2) digits.simps) auto
  qed
qed

lemma redirect_url_for:
  "redirect url_for_index = Inr (Redirect url_for_index)"
  "redirect url_for_register = Inr (Redirect url_for_register)"
  "redirect url_for_login = Inr (Redirect url_for_login)"
  "redirect url_for_listings = Inr (Redirect url_for_listings)"
  "redirect url_for_create_listing = Inr (Redirect url_for_create_listing)"
  "redirect (url_for_listing_detail lid) = Inr (Redirect (url_for_listing_detail lid))"
  using digits_no_newline
  by (simp_all add: redirect_def url_for_index_def url_for_register_def url_for_login_def
      url_for_listings_def url_for_create_listing_def url_for_listing_detail_def str_int_def)

section \<open>Login\<close>

lemma redirect_plain:
  "CHR 0x0D \<notin> set t \<Longrightarrow> CHR 0x0A \<notin> set t \<Longrightarrow> redirect t = Inr (Redirect t)"
  by (simp add: redirect_def)

lemma redirect_index: "redirect url_for_index = Inr (Redirect url_for_index)"
  by (simp add: redirect_def url_for_index_def)

text \<open>
  When the password field is present, an unknown username and a known username with a
  password that fails the check get the same outcome.
\<close>

lemma login_failure_same_response:
  assumes "user_by_username st na = None"
    and "user_by_username st nb = Some u" and "\<not> chk (password_hash u) pb"
  shows "login chk st POST na pa nxa = login chk st POST nb (Some pb) nxb \<and>
         login chk st POST na pa nxa =
           Inr (Redirect url_for_login, [(''Invalid username or password.'', ''danger'')], st)"
  using assms by (simp add: login_def)

text \<open>When it is missing, the outcome tells whether the username is known.\<close>

lemma login_missing_password:
  "login chk st POST n None nx =
     (if user_by_username st n = None
      then Inr (Redirect url_for_login, [(''Invalid username or password.'', ''danger'')], st)
      else Inl AttributeError)"
  by (simp add: login_def split: option.splits)

text \<open>
  Claim C7.  The claim is that a failing login never shows whether the username is
  unknown or the password wrong.  A POST without a password field fails for both, but not
  alike: for the unknown username ``zoe'' the view answers with the notice ``Invalid
  username or password.'' and a redirect to the login page, for the known username
  ``ann'' the password check raises and there is no notice and no redirect.
\<close>

theorem login_missing_password_reveals_username:
  "login demo_chk demo_state POST (Some ''zoe'') None None =
     Inr (Redirect ''/login'', [(''Invalid username or password.'', ''danger'')], demo_state) \<and>
   login demo_chk demo_state POST (Some ''ann'') None None = Inl AttributeError"
  by (simp add: login_missing_password url_for_login_def) (simp add: demo_state_def)

text \<open>
  Claim C10, as amended.  A login with the username of a user and a password that passes
  the check redirects to the value of the query parameter \<open>next\<close>, unchanged and
  unvalidated by the view, when that value is a non-empty string without carriage return
  and line feed; it raises \<open>ValueError\<close>, with no redirect, when the value holds one of
  the two; and it redirects to the home page when the parameter is absent or empty.
\<close>

theorem login_redirects_to_next:
  assumes "user_by_username st n = Some u" and "chk (password_hash u) p"
  shows "(\<forall>t. t \<noteq> [] \<and> CHR 0x0D \<notin> set t \<and> CHR 0x0A \<notin> set t \<longrightarrow>
            login chk st POST n (Some p) (Some t) =
              Inr (Redirect t, [(''Logged in successfully.'', ''success'')],
                   st\<lparr>session := Some (u_id u)\<rparr>)) \<and>
         (\<forall>t. CHR 0x0D \<in> set t \<or> CHR 0x0A \<in> set t \<longrightarrow>
            login chk st POST n (Some p) (Some t) = Inl ValueError) \<and>
         (nx = None \<or> nx = Some [] \<longrightarrow>
            login chk st POST n (Some p) nx =
              Inr (Redirect url_for_index, [(''Logged in successfully.'', ''success'')],
                   st\<lparr>session := Some (u_id u)\<rparr>))"
proof (intro conjI allI impI)
  fix t :: string
  assume "t \<noteq> [] \<and> CHR 0x0D \<notin> set t \<and> CHR 0x0A \<notin> set t"
  with assms show "login chk st POST n (Some p) (Some t) =
      Inr (Redirect t, [(''Logged in successfully.'', ''success'')],
           st\<lparr>session := Some (u_id u)\<rparr>)"
    by (simp add: login_def redirect_plain)
next
  fix t :: string
  assume nl: "CHR 0x0D \<in> set t \<or> CHR 0x0A \<in> set t"
  then have "t \<noteq> []" by auto
  with nl assms show "login chk st POST n (Some p) (Some t) = Inl ValueError"
    by (simp add: login_def redirect_def)
next
  assume "nx = None \<or> nx = Some []"
  then have "\<not> truthy nx" by auto
  with assms show "login chk st POST n (Some p) nx =
      Inr (Redirect url_for_index, [(''Logged in successfully.'', ''success'')],
           st\<lparr>session := Some (u_id u)\<rparr>)"
    by (simp add: login_def redirect_index)
qed

theorem login_redirects_to_next_witness:
  "login demo_chk demo_state POST (Some ''bob'') (Some ''h2'')
     (Some ''http://evil.example/'') =
     Inr (Redirect ''http://evil.example/'', [(''Logged in successfully.'', ''success'')],
          demo_state\<lparr>session := Some 2\<rparr>) \<and>
   login demo_chk demo_state POST (Some ''bob'') (Some ''h2'') (Some []) =
     Inr (Redirect ''/'', [(''Logged in successfully.'', ''success'')],
          demo_state\<lparr>session := Some 2\<rparr>)"
proof -
  have a: "user_by_username demo_state (Some ''bob'') =
      Some \<lparr>u_id = 2, username = ''bob'', email = ''bob@x.org'', password_hash = ''h2''\<rparr>"
    by (simp add: demo_state_def)
  have b: "demo_chk
      (password_hash \<lparr>u_id = 2, username = ''bob'', email = ''bob@x.org'', password_hash = ''h2''\<rparr>)
      ''h2''"
    by (simp add: demo_chk_def)
  note t = login_redirects_to_next [where chk = demo_chk and p = "''h2''" and nx = "Some []",
      OF a b]
  have c: "''http://evil.example/'' \<noteq> [] \<and> CHR 0x0D \<notin> set ''http://evil.example/'' \<and>
      CHR 0x0A \<notin> set ''http://evil.example/''"
    by simp
  from t c have "login demo_chk demo_state POST (Some ''bob'') (Some ''h2'')
     (Some ''http://evil.example/'') =
     Inr (Redirect ''http://evil.example/'', [(''Logged in successfully.'', ''success'')],
          demo_state\<lparr>session := Some (u_id
            \<lparr>u_id = 2, username = ''bob'', email = ''bob@x.org'', password_hash = ''h2''\<rparr>)\<rparr>)"
    by blast
  moreover from t have "login demo_chk demo_state POST (Some ''bob'') (Some ''h2'') (Some []) =
     Inr (Redirect url_for_index, [(''Logged in successfully.'', ''success'')],
          demo_state\<lparr>session := Some (u_id
            \<lparr>u_id = 2, username = ''bob'', email = ''bob@x.org'', password_hash = ''h2''\<rparr>)\<rparr>)"
    by blast
  ultimately show ?thesis by (simp add: url_for_index_def)
qed

text \<open>
  Claim C10 as stated fails: with a line feed in \<open>next\<close> a successful login produces no
  redirect, the call of \<open>redirect\<close> raises.
\<close>

theorem login_next_with_newline_raises:
  "login demo_chk demo_state POST (Some ''bob'') (Some ''h2'')
     (Some [CHR ''x'', CHR 0x0A, CHR ''y'']) = Inl ValueError"
  by (simp add: login_def redirect_def demo_state_def demo_chk_def)

section \<open>Registration\<close>

lemma find_snoc:
  "find P (xs @ [x]) = (case find P xs of None \<Rightarrow> (if P x then Some x else None) | Some y \<Rightarrow> Some y)"
  by (induction xs) auto

text \<open>
  Claim C8, as amended.  A registration whose username or email is already held never
  changes the state, so no user is created; when its fields pass the validation that
  \<open>register\<close> runs first (username, email and password non-empty, password equal to its
  confirmation) it is answered with the conflict notice and a redirect to the
  registration page.  After a successful registration the username and the email are
  held, so both apply to every later registration with either.
\<close>

theorem register_conflict_rejected:
  "(user_by_username st n \<noteq> None \<or> user_by_email st e \<noteq> None \<longrightarrow>
      state_after st (register gen st meth n e p c) = st \<and>
      (truthy n \<and> truthy e \<and> truthy p \<and> p = c \<longrightarrow>
         register gen st POST n e p c =
           Inr (Redirect url_for_register,
                [(if user_by_username st n \<noteq> None then ''Username already taken.''
                  else ''Email already registered.'', ''danger'')], st))) \<and>
   (register gen st0 POST n e p0 c0 = Inr (Redirect url_for_index, fl, st) \<longrightarrow>
      user_by_username st n \<noteq> None \<and> user_by_email st e \<noteq> None)"
proof (intro conjI impI)
  assume h: "user_by_username st n \<noteq> None \<or> user_by_email st e \<noteq> None"
  then show "state_after st (register gen st meth n e p c) = st"
    by (auto simp: register_def Let_def)
next
  assume h: "user_by_username st n \<noteq> None \<or> user_by_email st e \<noteq> None"
    and v: "truthy n \<and> truthy e \<and> truthy p \<and> p = c"
  then show "register gen st POST n e p c =
           Inr (Redirect url_for_register,
                [(if user_by_username st n \<noteq> None then ''Username already taken.''
                  else ''Email already registered.'', ''danger'')], st)"
    by (auto simp: register_def Let_def)
next
  assume s: "register gen st0 POST n e p0 c0 = Inr (Redirect url_for_index, fl, st)"
  have ne: "url_for_register \<noteq> url_for_index"
    by (simp add: url_for_register_def url_for_index_def)
  from s ne have ok: "truthy n" "truthy e" "user_by_username st0 n = None"
    "user_by_email st0 e = None"
    and st: "users st = users st0 @
            [\<lparr>u_id = next_id (map u_id (users st0)), username = the n, email = the e,
              password_hash = gen (the p0)\<rparr>]"
    by (auto simp: register_def Let_def split: if_splits)
  from ok(1) obtain nm where n: "n = Some nm" by (cases n) auto
  from ok(2) obtain em where e: "e = Some em" by (cases e) auto
  from ok(3) n st show "user_by_username st n \<noteq> None"
    by (simp add: find_snoc)
  from ok(4) e st show "user_by_email st e \<noteq> None"
    by (simp add: find_snoc)
qed

theorem register_conflict_rejected_witness:
  "user_by_username demo_state (Some ''ann'') \<noteq> None \<and>
   register demo_gen demo_state POST (Some ''ann'') (Some ''new@x.org'') (Some ''pw'') (Some ''pw'') =
     Inr (Redirect ''/register'', [(''Username already taken.'', ''danger'')], demo_state) \<and>
   register demo_gen empty_state POST (Some ''ann'') (Some ''ann@x.org'') (Some ''pw'') (Some ''pw'') =
     Inr (Redirect ''/'', [(''Registration successful! Welcome to the book exchange.'', ''success'')],
          \<lparr>users = [\<lparr>u_id = 1, username = ''ann'', email = ''ann@x.org'', password_hash = ''pw''\<rparr>],
            listings = [], messages = [], session = Some 1\<rparr>) \<and>
   user_by_username
     \<lparr>users = [\<lparr>u_id = 1, username = ''ann'', email = ''ann@x.org'', password_hash = ''pw''\<rparr>],
       listings = [], messages = [], session = Some 1\<rparr> (Some ''ann'') \<noteq> None"
proof -
  have a: "user_by_username demo_state (Some ''ann'') \<noteq> None"
    by (simp add: demo_state_def)
  have b: "register demo_gen empty_state POST (Some ''ann'') (Some ''ann@x.org'') (Some ''pw'') (Some ''pw'') =
     Inr (Redirect url_for_index, [(''Registration successful! Welcome to the book exchange.'', ''success'')],
          \<lparr>users = [\<lparr>u_id = 1, username = ''ann'', email = ''ann@x.org'', password_hash = ''pw''\<rparr>],
            listings = [], messages = [], session = Some 1\<rparr>)"
    by (simp add: register_def empty_state_def next_id_def Let_def demo_gen_def)
  from register_conflict_rejected [where st = demo_state and n = "Some ''ann''"
      and e = "Some ''new@x.org''" and p = "Some ''pw''" and c = "Some ''pw''" and gen = demo_gen
      and ?st0.0 = demo_state and ?p0.0 = None and ?c0.0 = None and fl = "[]"] a
  have c: "register demo_gen demo_state POST (Some ''ann'') (Some ''new@x.org'') (Some ''pw'') (Some ''pw'') =
     Inr (Redirect url_for_register, [(''Username already taken.'', ''danger'')], demo_state)"
    by simp
  from register_conflict_rejected [where ?st0.0 = empty_state and n = "Some ''ann''"
      and e = "Some ''ann@x.org''" and ?p0.0 = "Some ''pw''" and ?c0.0 = "Some ''pw''"
      and gen = demo_gen
      and fl = "[(''Registration successful! Welcome to the book exchange.'', ''success'')]"
      and st = "\<lparr>users = [\<lparr>u_id = 1, username = ''ann'', email = ''ann@x.org'', password_hash = ''pw''\<rparr>],
            listings = [], messages = [], session = Some 1\<rparr>"] b
  have d: "user_by_username
     \<lparr>users = [\<lparr>u_id = 1, username = ''ann'', email = ''ann@x.org'', password_hash = ''pw''\<rparr>],
       listings = [], messages = [], session = Some 1\<rparr> (Some ''ann'') \<noteq> None"
    by blast
  from a b c d show ?thesis
    by (simp add: url_for_register_def url_for_index_def)
qed

text \<open>
  Claim C8 as stated fails: a registration with a held username whose password
  confirmation differs is refused with the validation notice, not the conflict notice.
\<close>

theorem register_validation_precedes_conflict:
  "user_by_username demo_state (Some ''ann'') \<noteq> None \<and>
   register demo_gen demo_state POST (Some ''ann'') (Some ''new@x.org'') (Some ''pw'') (Some ''other'') =
     Inr (Redirect ''/register'', [(''Passwords do not match.'', ''danger'')], demo_state)"
  by (simp add: demo_state_def register_def url_for_register_def)


section \<open>Content of stored messages\<close>

lemma step_messages:
  "messages (step gen chk st r) = messages st \<or>
   (\<exists>m. messages (step gen chk st r) = messages st @ [m] \<and> content m \<noteq> [])"
proof (cases r)
  case (Register n e p c)
  then show ?thesis by (simp add: step_def register_def Let_def)
next
  case (Login n p nx)
  then show ?thesis
    by (simp add: step_def login_def redirect_def split: option.splits)
next
  case Logout
  then show ?thesis by (simp add: step_def logout_def split: option.splits)
next
  case (Create_listing t a g d c now)
  then show ?thesis by (simp add: step_def create_listing_def split: option.splits)
next
  case (Send c now lid)
  then show ?thesis
    by (cases c) (auto simp: step_def listing_detail_def Let_def new_message_def split: option.splits)
qed

lemma run_snoc: "run gen chk st (rs @ [r]) = step gen chk (run gen chk st rs) r"
  by (simp add: run_def)

text \<open>
  Claim C5, as amended.  In every state reached from the empty store by any sequence of
  requests, every stored message has content that is not the empty string.  (No trimming
  is applied: see the run below.)
\<close>

theorem stored_content_nonempty:
  "\<forall>m \<in> set (messages (run gen chk empty_state rs)). content m \<noteq> []"
proof (induction rs rule: rev_induct)
  case Nil
  show ?case by (simp add: run_def empty_state_def)
next
  case (snoc r rs)
  from step_messages [of gen chk "run gen chk empty_state rs" r] snoc
  show ?case unfolding run_snoc by auto
qed

lemma sample_run:
  "messages (run demo_gen demo_chk empty_state (sample_requests c)) =
     (if c = [] then [] else
     [\<lparr>m_id = 1, sender_id = 2, receiver_id = 1, listing_id = 1, content = c, timestamp = 9\<rparr>])"
  by (simp add: sample_requests_def run_def step_def register_def create_listing_def logout_def
      listing_detail_def empty_state_def next_id_def current_user_def get_user_def
      get_listing_def Let_def new_message_def demo_gen_def demo_chk_def)

theorem stored_content_nonempty_witness:
  "\<lparr>m_id = 1, sender_id = 2, receiver_id = 1, listing_id = 1, content = ''Hi'', timestamp = 9\<rparr>
     \<in> set (messages (run demo_gen demo_chk empty_state (sample_requests ''Hi''))) \<and>
   content \<lparr>m_id = 1, sender_id = 2, receiver_id = 1, listing_id = 1, content = ''Hi'',
     timestamp = 9\<rparr> \<noteq> []"
  using stored_content_nonempty [of demo_gen demo_chk "sample_requests ''Hi''"]
  by (simp add: sample_run)

text \<open>
  Claim C5 as stated fails: content of two spaces is stored as it is, although it is
  empty after trimming.
\<close>

theorem whitespace_content_is_stored:
  "map content (messages (run demo_gen demo_chk empty_state (sample_requests ''  '')))
     = [''  ''] \<and> spec_trim ''  '' = []"
  by (simp add: sample_run spec_trim_def is_space_def)


section \<open>Listings keep their owner\<close>

text \<open>
  No request removes a user, and a listing is created for the current user, so in every
  state reached from the empty store \<open>listing.owner\<close> is a user: the case in which
  \<open>listing_detail\<close> fails on \<open>owner.id\<close> does not arise there.
\<close>

lemma get_user_snoc:
  "get_user st k \<noteq> None \<Longrightarrow> get_user (st\<lparr>users := users st @ [u], session := s\<rparr>) k \<noteq> None"
  by (auto simp: get_user_def find_snoc split: option.splits)

lemma owners_exist_step:
  assumes "owners_exist st"
  shows "owners_exist (step gen chk st r)"
proof (cases r)
  case (Register n e p c)
  have "owners_exist (st\<lparr>users := users st @ [u], session := s\<rparr>)" for u s
    using assms get_user_snoc [where st = st and u = u and s = s]
    by (simp add: owners_exist_def list_all_iff)
  with assms Register show ?thesis
    by (simp add: step_def register_def Let_def)
next
  case (Login n p nx)
  have "owners_exist (st\<lparr>session := s\<rparr>)" for s
    using assms by (simp add: owners_exist_def get_user_def)
  with assms Login show ?thesis
    by (simp add: step_def login_def redirect_def split: option.splits)
next
  case Logout
  have "owners_exist (st\<lparr>session := s\<rparr>)" for s
    using assms by (simp add: owners_exist_def get_user_def)
  with assms Logout show ?thesis
    by (simp add: step_def logout_def split: option.splits)
next
  case (Create_listing t a g d c now)
  have "owners_exist (st\<lparr>listings := listings st @ [l]\<rparr>)"
    if "current_user st = Some cu" and "owner_id l = u_id cu" for l cu
    using assms that current_user_row [of st cu]
    by (simp add: owners_exist_def get_user_def)
  with assms Create_listing show ?thesis
    by (simp add: step_def create_listing_def split: option.splits)
next
  case (Send c now lid)
  have "owners_exist (st\<lparr>messages := ms\<rparr>)" for ms
    using assms by (simp add: owners_exist_def get_user_def)
  with assms Send show ?thesis
    by (simp add: step_def listing_detail_def Let_def split: option.splits)
qed

lemma owners_exist_run: "owners_exist (run gen chk empty_state rs)"
proof (induction rs rule: rev_induct)
  case Nil
  show ?case by (simp add: run_def empty_state_def owners_exist_def)
next
  case (snoc r rs)
  then show ?case unfolding run_snoc by (rule owners_exist_step)
qed

section \<open>The overview of conversations\<close>

lemma conv_step_dom: "dom (conv_step uid convs x) = insert (conv_key uid x) (dom convs)"
  by (auto simp: conv_step_def split: option.splits if_splits)

lemma conv_fold_dom: "dom (foldl (conv_step uid) Map.empty xs) = conv_key uid ` set xs"
  by (induction xs rule: rev_induct) (simp_all add: conv_step_dom)

lemma first_latest_new:
  assumes "\<forall>y \<in> set xs. conv_key uid y = conv_key uid x \<longrightarrow> timestamp y < timestamp x"
  shows "first_latest uid (xs @ [x]) (conv_key uid x) x"
  unfolding first_latest_def
  apply (rule exI [of _ xs])
  apply (rule exI [of _ "[]"])
  using assms apply simp
  done

lemma first_latest_keep:
  assumes "first_latest uid xs k m"
    and "conv_key uid x = k \<longrightarrow> timestamp x \<le> timestamp m"
  shows "first_latest uid (xs @ [x]) k m"
proof -
  from assms(1) obtain pre suf where
    xs: "xs = pre @ m # suf" and km: "conv_key uid m = k"
    and p: "\<forall>x \<in> set pre. conv_key uid x = k \<longrightarrow> timestamp x < timestamp m"
    and s: "\<forall>x \<in> set suf. conv_key uid x = k \<longrightarrow> timestamp x \<le> timestamp m"
    unfolding first_latest_def by blast
  show ?thesis
    unfolding first_latest_def
    apply (rule exI [of _ pre])
    apply (rule exI [of _ "suf @ [x]"])
    using xs km p s assms(2) apply simp
    done
qed

lemma first_latest_bound:
  assumes "first_latest uid xs k m" and "y \<in> set xs" and "conv_key uid y = k"
  shows "timestamp y \<le> timestamp m"
proof -
  from assms(1) obtain pre suf where
    xs: "xs = pre @ m # suf"
    and p: "\<forall>x \<in> set pre. conv_key uid x = k \<longrightarrow> timestamp x < timestamp m"
    and s: "\<forall>x \<in> set suf. conv_key uid x = k \<longrightarrow> timestamp x \<le> timestamp m"
    unfolding first_latest_def by blast
  from assms(2) xs have "y \<in> set pre \<or> y = m \<or> y \<in> set suf" by auto
  then show ?thesis using p s assms(3) by (elim disjE) (simp_all add: less_imp_le)
qed


lemma conv_fold_entry:
  "foldl (conv_step uid) Map.empty xs k = Some m \<Longrightarrow> first_latest uid xs k m"
proof (induction xs arbitrary: m k rule: rev_induct)
  case Nil
  then show ?case by simp
next
  case (snoc x xs)
  let ?F = "foldl (conv_step uid) Map.empty xs"
  let ?k' = "conv_key uid x"
  from snoc.prems have res: "conv_step uid ?F x k = Some m" by simp
  show ?case
  proof (cases "?F ?k'")
    case None
    have "?k' \<notin> dom ?F" using None by (simp add: domIff)
    then have nokey: "\<forall>y \<in> set xs. conv_key uid y \<noteq> ?k'"
      unfolding conv_fold_dom by (metis imageI)
    from None have upd: "conv_step uid ?F x = ?F(?k' \<mapsto> x)"
      by (simp add: conv_step_def)
    show ?thesis
    proof (cases "k = ?k'")
      case True
      with res upd have "m = x" by simp
      moreover from nokey
      have "\<forall>y \<in> set xs. conv_key uid y = ?k' \<longrightarrow> timestamp y < timestamp x" by simp
      ultimately show ?thesis using True first_latest_new by simp
    next
      case False
      with res upd have "?F k = Some m" by simp
      then have "first_latest uid xs k m" by (rule snoc.IH)
      moreover from False have "conv_key uid x = k \<longrightarrow> timestamp x \<le> timestamp m" by simp
      ultimately show ?thesis by (rule first_latest_keep)
    qed
  next
    case (Some old)
    then have fl_old: "first_latest uid xs ?k' old" by (rule snoc.IH)
    show ?thesis
    proof (cases "timestamp x > timestamp old")
      case True
      with Some have upd: "conv_step uid ?F x = ?F(?k' \<mapsto> x)"
        by (simp add: conv_step_def)
      show ?thesis
      proof (cases "k = ?k'")
        case k: True
        with res upd have mx: "m = x" by simp
        have "\<forall>y \<in> set xs. conv_key uid y = ?k' \<longrightarrow> timestamp y < timestamp x"
        proof (intro ballI impI)
          fix y assume "y \<in> set xs" and "conv_key uid y = ?k'"
          with fl_old have "timestamp y \<le> timestamp old" by (rule first_latest_bound)
          with True show "timestamp y < timestamp x" by simp
        qed
        then have "first_latest uid (xs @ [x]) ?k' x" by (rule first_latest_new)
        with k mx show ?thesis by simp
      next
        case False
        with res upd have "?F k = Some m" by simp
        then have "first_latest uid xs k m" by (rule snoc.IH)
        moreover from False have "conv_key uid x = k \<longrightarrow> timestamp x \<le> timestamp m" by simp
        ultimately show ?thesis by (rule first_latest_keep)
      qed
    next
      case False
      with Some have same: "conv_step uid ?F x = ?F"
        by (simp add: conv_step_def)
      with res have old: "?F k = Some m" by simp
      then have "first_latest uid xs k m" by (rule snoc.IH)
      moreover have "conv_key uid x = k \<longrightarrow> timestamp x \<le> timestamp m"
        using False Some old by auto
      ultimately show ?thesis by (rule first_latest_keep)
    qed
  qed
qed

lemma partner_pair:
  "involves uid m \<Longrightarrow> {uid, partner_id uid m} = {sender_id m, receiver_id m}"
  by (auto simp: involves_def partner_id_def)

text \<open>
  Claim C3, as amended.  For the current user \<open>u\<close> the overview renders a dictionary
  with exactly one entry per key \<open>(listing_id, partner_id)\<close> of the messages in which
  \<open>u\<close> is sender or receiver, the partner being the other one of sender and receiver.
  The entry of a key is a message of that key with the greatest timestamp, and among the
  messages of the key with that timestamp it is the first in scan order.
\<close>

theorem conversations_keep_first_latest:
  assumes "current_user st = Some u"
  shows "messages_overview st = Inr (Render_messages (conversations st (u_id u)), [], st) \<and>
    dom (conversations st (u_id u)) =
      conv_key (u_id u) ` {m \<in> set (messages st). involves (u_id u) m} \<and>
    (\<forall>m \<in> set (messages st). involves (u_id u) m \<longrightarrow>
       {u_id u, partner_id (u_id u) m} = {sender_id m, receiver_id m}) \<and>
    (\<forall>k m. conversations st (u_id u) k = Some m \<longrightarrow>
       first_latest (u_id u) (filter (involves (u_id u)) (messages st)) k m)"
proof (intro conjI)
  from assms show "messages_overview st = Inr (Render_messages (conversations st (u_id u)), [], st)"
    by (simp add: messages_overview_def)
  show "dom (conversations st (u_id u)) =
      conv_key (u_id u) ` {m \<in> set (messages st). involves (u_id u) m}"
    by (simp add: conversations_def conv_fold_dom)
  show "\<forall>m \<in> set (messages st). involves (u_id u) m \<longrightarrow>
       {u_id u, partner_id (u_id u) m} = {sender_id m, receiver_id m}"
    by (intro ballI impI) (rule partner_pair)
  show "\<forall>k m. conversations st (u_id u) k = Some m \<longrightarrow>
       first_latest (u_id u) (filter (involves (u_id u)) (messages st)) k m"
    unfolding conversations_def by (intro allI impI) (rule conv_fold_entry)
qed

lemma tie_conversations:
  "conversations tie_state 1 (1, 2) =
     Some \<lparr>m_id = 1, sender_id = 1, receiver_id = 2, listing_id = 1,
            content = ''first'', timestamp = 7\<rparr>"
  by (simp add: tie_state_def conversations_def involves_def conv_step_def conv_key_def
      partner_id_def)

theorem conversations_keep_first_latest_witness:
  "current_user tie_state =
     Some \<lparr>u_id = 1, username = ''ann'', email = ''ann@x.org'', password_hash = ''h1''\<rparr> \<and>
   conversations tie_state 1 (1, 2) =
     Some \<lparr>m_id = 1, sender_id = 1, receiver_id = 2, listing_id = 1,
            content = ''first'', timestamp = 7\<rparr> \<and>
   first_latest 1 (filter (involves 1) (messages tie_state)) (1, 2)
     \<lparr>m_id = 1, sender_id = 1, receiver_id = 2, listing_id = 1,
       content = ''first'', timestamp = 7\<rparr> \<and>
   messages_overview tie_state = Inr (Render_messages (conversations tie_state 1), [], tie_state)"
proof -
  have c: "current_user tie_state =
     Some \<lparr>u_id = 1, username = ''ann'', email = ''ann@x.org'', password_hash = ''h1''\<rparr>"
    by (simp add: tie_state_def current_user_def get_user_def)
  note t = conversations_keep_first_latest [OF c]
  from t have a: "messages_overview tie_state =
      Inr (Render_messages (conversations tie_state 1), [], tie_state)" by simp
  from t have "\<forall>k m. conversations tie_state 1 k = Some m \<longrightarrow>
       first_latest 1 (filter (involves 1) (messages tie_state)) k m" by simp
  with tie_conversations
  have b: "first_latest 1 (filter (involves 1) (messages tie_state)) (1, 2)
     \<lparr>m_id = 1, sender_id = 1, receiver_id = 2, listing_id = 1,
       content = ''first'', timestamp = 7\<rparr>" by blast
  from a b c tie_conversations show ?thesis by simp
qed

text \<open>
  Claim C3 as stated fails on the tie: of two messages of one key with equal timestamps
  the entry is the first in scan order, not the last.
\<close>

theorem tie_keeps_first_not_last:
  "messages tie_state =
     [\<lparr>m_id = 1, sender_id = 1, receiver_id = 2, listing_id = 1,
       content = ''first'', timestamp = 7\<rparr>,
      \<lparr>m_id = 2, sender_id = 1, receiver_id = 2, listing_id = 1,
       content = ''second'', timestamp = 7\<rparr>] \<and>
   conv_key 1 \<lparr>m_id = 1, sender_id = 1, receiver_id = 2, listing_id = 1,
       content = ''first'', timestamp = 7\<rparr> = (1, 2) \<and>
   conv_key 1 \<lparr>m_id = 2, sender_id = 1, receiver_id = 2, listing_id = 1,
       content = ''second'', timestamp = 7\<rparr> = (1, 2) \<and>
   conversations tie_state 1 (1, 2) =
     Some \<lparr>m_id = 1, sender_id = 1, receiver_id = 2, listing_id = 1,
            content = ''first'', timestamp = 7\<rparr> \<and>
   conversations tie_state 1 (1, 2) \<noteq>
     Some \<lparr>m_id = 2, sender_id = 1, receiver_id = 2, listing_id = 1,
            content = ''second'', timestamp = 7\<rparr>"
  by (simp add: tie_conversations) (simp add: tie_state_def conv_key_def partner_id_def)


section \<open>Searching the catalog\<close>

text \<open>Lower-casing is idempotent and neither produces nor removes a wildcard.\<close>

lemma of_char_lower:
  "(of_char (lower_char c) :: nat) =
     (if 65 \<le> (of_char c :: nat) \<and> (of_char c :: nat) \<le> 90 then of_char c + 32 else of_char c)"
  by (simp add: lower_char_def Let_def)

lemma lower_char_idem: "lower_char (lower_char c) = lower_char c"
proof -
  have "(of_char (lower_char (lower_char c)) :: nat) = of_char (lower_char c)"
    by (simp add: of_char_lower)
  then show ?thesis by (simp only: of_char_eq_iff)
qed

lemma lower_char_percent: "lower_char c = CHR ''%'' \<longleftrightarrow> c = CHR ''%''"
proof -
  have "(of_char (lower_char c) :: nat) = of_char (CHR ''%'') \<longleftrightarrow> (of_char c :: nat) = of_char (CHR ''%'')"
    by (simp add: of_char_lower)
  then show ?thesis by (simp only: of_char_eq_iff)
qed

lemma lower_char_underscore: "lower_char c = CHR ''_'' \<longleftrightarrow> c = CHR ''_''"
proof -
  have "(of_char (lower_char c) :: nat) = of_char (CHR ''_'') \<longleftrightarrow> (of_char c :: nat) = of_char (CHR ''_'')"
    by (simp add: of_char_lower)
  then show ?thesis by (simp only: of_char_eq_iff)
qed

text \<open>The pattern \<open>%q%\<close> with a wildcard-free \<open>q\<close> matches exactly the strings that contain
  \<open>q\<close> up to case.\<close>

lemma like_percent:
  "like (CHR ''%'' # ps) s \<longleftrightarrow> (\<exists>a b. s = a @ b \<and> like ps b)"
proof (induction s)
  case Nil
  show ?case by simp
next
  case (Cons c cs)
  have "(\<exists>a b. c # cs = a @ b \<and> like ps b) \<longleftrightarrow>
        like ps (c # cs) \<or> (\<exists>a b. cs = a @ b \<and> like ps b)"
    by (auto simp: Cons_eq_append_conv)
  with Cons show ?case by simp
qed

lemma like_plain:
  assumes "wildcard_free q"
  shows "like (q @ r) s \<longleftrightarrow>
    (\<exists>a b. s = a @ b \<and> map lower_char a = map lower_char q \<and> like r b)"
  using assms
proof (induction q arbitrary: s)
  case Nil
  show ?case by simp
next
  case (Cons p ps)
  then have p: "p \<noteq> CHR ''%''" "p \<noteq> CHR ''_''" and ps: "wildcard_free ps"
    by (auto simp: wildcard_free_def)
  show ?case
  proof (cases s)
    case Nil
    with p show ?thesis by simp
  next
    case (Cons c cs)
    have "(\<exists>a b. c # cs = a @ b \<and> map lower_char a = map lower_char (p # ps) \<and> like r b) \<longleftrightarrow>
          lower_char p = lower_char c \<and>
          (\<exists>a b. cs = a @ b \<and> map lower_char a = map lower_char ps \<and> like r b)"
      (is "?L \<longleftrightarrow> ?R")
    proof
      assume ?L
      then obtain a b where ab: "c # cs = a @ b"
        and m: "map lower_char a = map lower_char (p # ps)" and l: "like r b" by blast
      from m obtain a0 a' where a: "a = a0 # a'" by (cases a) auto
      with ab have "a0 = c" "cs = a' @ b" by auto
      with a m l show ?R by auto
    next
      assume ?R
      then obtain a b where "lower_char p = lower_char c" "cs = a @ b"
        "map lower_char a = map lower_char ps" "like r b" by blast
      then have "c # cs = (c # a) @ b \<and> map lower_char (c # a) = map lower_char (p # ps) \<and> like r b"
        by simp
      then show ?L by blast
    qed
    with Cons p Cons.IH [OF ps, of cs] show ?thesis by simp
  qed
qed

lemma like_only_percent: "like ''%'' s"
  unfolding like_percent by (rule exI [of _ s], rule exI [of _ "[]"]) simp

lemma like_infix:
  assumes "wildcard_free q"
  shows "like (''%'' @ q @ ''%'') s \<longleftrightarrow> sublist (map lower_char q) (map lower_char s)"
proof -
  have "like (''%'' @ q @ ''%'') s \<longleftrightarrow> (\<exists>a b. s = a @ b \<and> like (q @ ''%'') b)"
    using like_percent [of "q @ ''%''" s] by simp
  also have "\<dots> \<longleftrightarrow> (\<exists>a m b. s = a @ m @ b \<and> map lower_char m = map lower_char q)"
    unfolding like_plain [OF assms] using like_only_percent by auto
  also have "\<dots> \<longleftrightarrow> sublist (map lower_char q) (map lower_char s)"
  proof
    assume "\<exists>a m b. s = a @ m @ b \<and> map lower_char m = map lower_char q"
    then obtain a m b where "s = a @ m @ b" "map lower_char m = map lower_char q" by blast
    then have "map lower_char s = map lower_char a @ map lower_char q @ map lower_char b"
      by simp
    then show "sublist (map lower_char q) (map lower_char s)"
      unfolding sublist_def by blast
  next
    assume "sublist (map lower_char q) (map lower_char s)"
    then obtain xs ys where "map lower_char s = xs @ map lower_char q @ ys"
      unfolding sublist_def by blast
    then obtain a t where s: "s = a @ t" and t: "map lower_char q @ ys = map lower_char t"
      unfolding map_eq_append_conv by blast
    from t [symmetric] obtain m b where "t = m @ b" "map lower_char q = map lower_char m"
      unfolding map_eq_append_conv by blast
    with s have "s = a @ m @ b \<and> map lower_char m = map lower_char q" by simp
    then show "\<exists>a m b. s = a @ m @ b \<and> map lower_char m = map lower_char q" by blast
  qed
  finally show ?thesis .
qed

lemma ilike_substring:
  assumes "wildcard_free q"
  shows "ilike s (''%'' @ q @ ''%'') \<longleftrightarrow> contains_ci q s"
proof -
  have wf: "wildcard_free (map lower_char q)"
    unfolding wildcard_free_def
  proof (intro conjI notI)
    assume "CHR ''%'' \<in> set (map lower_char q)"
    then obtain c where "c \<in> set q" "lower_char c = CHR ''%''" by auto
    with assms show False by (simp add: lower_char_percent wildcard_free_def)
  next
    assume "CHR ''_'' \<in> set (map lower_char q)"
    then obtain c where "c \<in> set q" "lower_char c = CHR ''_''" by auto
    with assms show False by (simp add: lower_char_underscore wildcard_free_def)
  qed
  have pc: "lower_char CHR ''%'' = CHR ''%''" using lower_char_percent by blast
  have "ilike s (''%'' @ q @ ''%'') = like (''%'' @ map lower_char q @ ''%'') (map lower_char s)"
    by (simp add: ilike_def pc)
  also have "\<dots> \<longleftrightarrow> sublist (map lower_char (map lower_char q)) (map lower_char (map lower_char s))"
    by (rule like_infix [OF wf])
  also have "\<dots> \<longleftrightarrow> contains_ci q s"
    by (simp add: contains_ci_def lower_char_idem comp_def)
  finally show ?thesis .
qed

lemma selected_wildcard_free:
  assumes "wildcard_free q"
  shows "selected q g c l = spec_selected q g c l"
proof -
  have "ilike_null (genre l) (''%'' @ q @ ''%'') =
      (case genre l of None \<Rightarrow> False | Some x \<Rightarrow> contains_ci q x)"
    by (cases "genre l")
      (simp_all only: ilike_null.simps ilike_substring [OF assms] option.case)
  then have "matches_search q l \<longleftrightarrow> contains_ci q (title l) \<or> contains_ci q (author l) \<or>
        (case genre l of None \<Rightarrow> False | Some x \<Rightarrow> contains_ci q x)"
    by (simp only: matches_search_def Let_def ilike_substring [OF assms])
  then show ?thesis
    by (simp only: selected_def spec_selected_def)
qed

lemma ilike_case_independent:
  "map lower_char p = map lower_char p' \<Longrightarrow> ilike s p = ilike s p'"
  by (simp add: ilike_def)

lemma listings_query_wildcard_free:
  assumes "wildcard_free q"
  shows "mset (listings_query st q g c) = filter_mset (spec_selected q g c) (mset (listings st)) \<and>
         sorted_wrt (\<lambda>a b. created_at a \<ge> created_at b) (listings_query st q g c)"
proof -
  have eq: "selected q g c = spec_selected q g c"
    by (rule ext) (rule selected_wildcard_free [OF assms])
  have "sorted (map (\<lambda>l. - created_at l) (listings_query st q g c))"
    by (simp add: listings_query_def newest_first_def)
  then have "sorted_wrt (\<lambda>a b. created_at a \<ge> created_at b) (listings_query st q g c)"
    by (simp add: sorted_map)
  moreover have "mset (listings_query st q g c) =
      filter_mset (spec_selected q g c) (mset (listings st))"
    by (simp add: listings_query_def newest_first_def eq)
  ultimately show ?thesis by simp
qed

lemma listings_query_case_independent:
  assumes "map lower_char q = map lower_char q'"
  shows "listings_query st q g c = listings_query st q' g c"
proof -
  from assms have e: "q = [] \<longleftrightarrow> q' = []" by (metis map_is_Nil_conv)
  from assms have p: "map lower_char (''%'' @ q @ ''%'') = map lower_char (''%'' @ q' @ ''%'')"
    by simp
  have "selected q g c = selected q' g c"
  proof (rule ext)
    fix l :: listing
    have "ilike_null (genre l) (''%'' @ q @ ''%'') = ilike_null (genre l) (''%'' @ q' @ ''%'')"
      by (cases "genre l")
        (simp_all only: ilike_null.simps ilike_case_independent [OF p])
    then have "matches_search q l = matches_search q' l"
      by (simp only: matches_search_def Let_def
          ilike_case_independent [OF p, of "title l"] ilike_case_independent [OF p, of "author l"])
    with e show "selected q g c l = selected q' g c l"
      by (simp only: selected_def)
  qed
  then show ?thesis by (simp add: listings_query_def)
qed

lemma demo_search_underscore:
  "listings_query demo_state ''_'' [] [] =
     [\<lparr>l_id = 1, title = ''Dune'', author = ''Herbert'', genre = None,
       description = None, condition = Some ''Good'', created_at = 5, owner_id = 2\<rparr>]"
  by code_simp

lemma demo_underscore_absent:
  "\<not> spec_selected ''_'' [] []
       \<lparr>l_id = 1, title = ''Dune'', author = ''Herbert'', genre = None,
         description = None, condition = Some ''Good'', created_at = 5, owner_id = 2\<rparr>"
  by code_simp

text \<open>
  Claim C6.  The claim reads the search as: \<open>q\<close> occurs case-insensitively as a substring
  of the title, the author or the genre.  For queries without \<open>%\<close> and \<open>_\<close> this is
  what \<open>listings_query\<close> computes, newest first and independently of the case of the
  query (lemmas \<open>listings_query_wildcard_free\<close> and \<open>listings_query_case_independent\<close>).  The query \<open>_\<close> is built into the pattern \<open>%_%\<close>,
  which matches every non-empty field: the view returns the listing ``Dune'' by
  ``Herbert'', with no genre, although \<open>_\<close> occurs in neither field.
\<close>

theorem search_wildcard_matches_without_occurrence:
  "listings_view demo_state (Some ''_'') None None =
     Inr (Render_listings
            [\<lparr>l_id = 1, title = ''Dune'', author = ''Herbert'', genre = None,
              description = None, condition = Some ''Good'', created_at = 5, owner_id = 2\<rparr>]
            [] [''Good''] ''_'' [] [], [], demo_state) \<and>
   \<not> spec_selected ''_'' [] []
       \<lparr>l_id = 1, title = ''Dune'', author = ''Herbert'', genre = None,
         description = None, condition = Some ''Good'', created_at = 5, owner_id = 2\<rparr>"
  by (simp add: listings_view_def demo_search_underscore demo_underscore_absent)
    (simp add: demo_state_def distinct_values_def)


end
